theory Spec2Isabelle
  imports Main "HOL-Library.Sublist"
begin

section \<open>Access control: scope matching and evaluators\<close>

text \<open>
  A shallow embedding of \<^verbatim>\<open>pkg/services/accesscontrol/evaluator.go\<close>.

  Go strings are byte sequences, modelled as \<^typ>\<open>string\<close>. A function returning
  \<^verbatim>\<open>(bool, error)\<close> returns a pair of a \<^typ>\<open>bool\<close> and an optional error, with
  \<^term>\<open>None\<close> for \<^verbatim>\<open>nil\<close>. The calls to \<^verbatim>\<open>logger\<close> write to the log and have no
  influence on any returned value; they are left out of the embedding. So are the
  \<^verbatim>\<open>String\<close> methods and \<^verbatim>\<open>ScopeInjector\<close>, which builds a modifier with the template
  library: a scope modifier is any function of its type.
\<close>

datatype error = Error string

subsection \<open>Scopes\<close>

text \<open>
  \<^verbatim>\<open>strings.HasPrefix(s, prefix)\<close> of the Go standard library:
  \<^verbatim>\<open>len(s) >= len(prefix) && s[:len(prefix)] == prefix\<close>.
\<close>

definition HasPrefix :: "string \<Rightarrow> string \<Rightarrow> bool" where
  "HasPrefix s pre = (length pre \<le> length s \<and> take (length pre) s = pre)"

text \<open>
  Modelled from the spec: \<^verbatim>\<open>ValidateScope\<close> is called by \<^verbatim>\<open>match\<close>
  (evaluator.go, line 87) and its body is not among the source files. The spec (4.1):
  a granted scope is valid when "a wildcard character is permitted only as the final
  character of the string. If a wildcard appears anywhere else, the scope is invalid".
  The theorems about valid scopes assume that \<^verbatim>\<open>ValidateScope\<close> returned true and use
  nothing else of it.
\<close>

definition ValidateScope :: "string \<Rightarrow> bool" where
  "ValidateScope scope = (CHR ''*'' \<notin> set (butlast scope))"

text \<open>
  \<^verbatim>\<open>match\<close> (evaluator.go, lines 82-106). The slice expressions
  \<^verbatim>\<open>scope[:len(scope)-1]\<close> and \<^verbatim>\<open>scope[len(scope)-1]\<close> are reached only for a
  non-empty scope, where they are \<^term>\<open>butlast scope\<close> and \<^term>\<open>last scope\<close>.
\<close>

definition match :: "string \<Rightarrow> string \<Rightarrow> bool \<times> error option" where
  "match scope target =
     (if scope = [] then (False, None)
      else if \<not> ValidateScope scope then (False, None)
      else
        (let prfx = butlast scope; lst = last scope in
           if lst = CHR ''*'' then
             (if HasPrefix target prfx then (True, None) else (scope = target, None))
           else (scope = target, None)))"

subsection \<open>Evaluators\<close>

text \<open>
  The granted permissions, \<^verbatim>\<open>map[string]map[string]struct{}\<close>: each action has a set of
  granted scopes. A \<^verbatim>\<open>range\<close> over a Go map visits its keys in an order the language
  leaves open, so the set of an action is given as the list of its scopes in the order
  the \<^verbatim>\<open>range\<close> statement visits them; the theorems hold for every such order.
\<close>

type_synonym permissions = "string \<rightharpoonup> string list"

text \<open>
  \<^verbatim>\<open>type ScopeModifier func(string) (string, error)\<close>: the modifier returns both values,
  and its callers look at the error first.
\<close>

type_synonym ScopeModifier = "string \<Rightarrow> string \<times> error option"

text \<open>
  The three implementations of the interface \<^verbatim>\<open>Evaluator\<close>: a \<^verbatim>\<open>permissionEvaluator\<close>
  with its fields \<^verbatim>\<open>Action\<close> and \<^verbatim>\<open>Scopes\<close>, an \<^verbatim>\<open>allEvaluator\<close> with \<^verbatim>\<open>allOf\<close> and an
  \<^verbatim>\<open>anyEvaluator\<close> with \<^verbatim>\<open>anyOf\<close>. The field \<^verbatim>\<open>Scopes\<close> is a
  slice that \<^verbatim>\<open>ModifyScopes\<close> compares with \<^verbatim>\<open>nil\<close>: \<^term>\<open>None\<close> is the nil slice and
  \<^term>\<open>Some []\<close> an empty slice that is not nil. No method tells a nil list of children
  from an empty one, so the children are a list.
\<close>

datatype Evaluator =
    permissionEvaluator string "string list option"
  | allEvaluator "Evaluator list"
  | anyEvaluator "Evaluator list"

text \<open>The elements a \<^verbatim>\<open>range\<close> over a slice visits; \<^verbatim>\<open>len\<close> of a nil slice is 0.\<close>

definition elements :: "'a list option \<Rightarrow> 'a list" where
  "elements s = (case s of None \<Rightarrow> [] | Some xs \<Rightarrow> xs)"

text \<open>
  The constructors \<^verbatim>\<open>EvalPermission(action, scopes...)\<close>, \<^verbatim>\<open>EvalAll(allOf...)\<close> and
  \<^verbatim>\<open>EvalAny(anyOf...)\<close>. A call of \<^verbatim>\<open>EvalPermission\<close> with the action alone leaves the
  variadic parameter nil.
\<close>

definition EvalPermission :: "string \<Rightarrow> string list option \<Rightarrow> Evaluator" where
  "EvalPermission action scopes = permissionEvaluator action scopes"

definition EvalAll :: "Evaluator list \<Rightarrow> Evaluator" where
  "EvalAll allOf = allEvaluator allOf"

definition EvalAny :: "Evaluator list \<Rightarrow> Evaluator" where
  "EvalAny anyOf = anyEvaluator anyOf"

subsection \<open>Evaluate\<close>

text \<open>
  \<^verbatim>\<open>permissionEvaluator.Evaluate\<close>, lines 65-73: the loop over the granted scopes for one
  target. \<^term>\<open>Inl err\<close> is the \<^verbatim>\<open>return false, err\<close> that leaves \<^verbatim>\<open>Evaluate\<close>;
  \<^term>\<open>Inr matches\<close> is the value of \<^verbatim>\<open>matches\<close> after the loop, which starts as
  \<^verbatim>\<open>false\<close> and is \<^verbatim>\<open>true\<close> only after the \<^verbatim>\<open>break\<close>.
\<close>

fun userScopesLoop :: "string list \<Rightarrow> string \<Rightarrow> error + bool" where
  "userScopesLoop [] target = Inr False"
| "userScopesLoop (scope # rest) target =
     (case match scope target of
        (matches, Some err) \<Rightarrow> Inl err
      | (matches, None) \<Rightarrow> if matches then Inr True else userScopesLoop rest target)"

text \<open>Lines 61-79: the loop over the required scopes.\<close>

fun targetsLoop :: "string list \<Rightarrow> string list \<Rightarrow> bool \<times> error option" where
  "targetsLoop userScopes [] = (True, None)"
| "targetsLoop userScopes (target # rest) =
     (case userScopesLoop userScopes target of
        Inl err \<Rightarrow> (False, Some err)
      | Inr matches \<Rightarrow> if \<not> matches then (False, None) else targetsLoop userScopes rest)"

definition permissionEvaluator_Evaluate ::
    "string \<Rightarrow> string list option \<Rightarrow> permissions \<Rightarrow> bool \<times> error option" where
  "permissionEvaluator_Evaluate action scopes permissions =
     (case permissions action of
        None \<Rightarrow> (False, None)
      | Some userScopes \<Rightarrow>
          if length (elements scopes) = 0 then (True, None)
          else targetsLoop userScopes (elements scopes))"

text \<open>
  \<^verbatim>\<open>allEvaluator.Evaluate\<close> (lines 139-146) and \<^verbatim>\<open>anyEvaluator.Evaluate\<close> (lines
  179-190). The children are values of the interface \<^verbatim>\<open>Evaluator\<close>, and
  \<^verbatim>\<open>e.Evaluate(permissions)\<close> is a dynamic call: the parameter \<open>ev\<close> is that call, so
  that the loops are defined for every implementation of the interface, also one that
  returns an error.
\<close>

fun allEvaluator_Evaluate :: "('a \<Rightarrow> bool \<times> error option) \<Rightarrow> 'a list \<Rightarrow> bool \<times> error option" where
  "allEvaluator_Evaluate ev [] = (True, None)"
| "allEvaluator_Evaluate ev (e # es) =
     (case ev e of
        (ok, err) \<Rightarrow> if \<not> ok \<or> err \<noteq> None then (False, err) else allEvaluator_Evaluate ev es)"

fun anyEvaluator_Evaluate :: "('a \<Rightarrow> bool \<times> error option) \<Rightarrow> 'a list \<Rightarrow> bool \<times> error option" where
  "anyEvaluator_Evaluate ev [] = (False, None)"
| "anyEvaluator_Evaluate ev (e # es) =
     (case ev e of
        (ok, err) \<Rightarrow>
          if err \<noteq> None then (False, err)
          else if ok then (True, None)
          else anyEvaluator_Evaluate ev es)"

lemma allEvaluator_Evaluate_cong [fundef_cong]:
  assumes "es = es'" and "\<And>e. e \<in> set es' \<Longrightarrow> ev e = ev' e"
  shows "allEvaluator_Evaluate ev es = allEvaluator_Evaluate ev' es'"
proof -
  have "(\<forall>e \<in> set xs. ev e = ev' e) \<Longrightarrow> allEvaluator_Evaluate ev xs = allEvaluator_Evaluate ev' xs" for xs
    by (induction xs) (simp_all split: prod.splits)
  with assms show ?thesis
    by simp
qed

lemma anyEvaluator_Evaluate_cong [fundef_cong]:
  assumes "es = es'" and "\<And>e. e \<in> set es' \<Longrightarrow> ev e = ev' e"
  shows "anyEvaluator_Evaluate ev es = anyEvaluator_Evaluate ev' es'"
proof -
  have "(\<forall>e \<in> set xs. ev e = ev' e) \<Longrightarrow> anyEvaluator_Evaluate ev xs = anyEvaluator_Evaluate ev' xs" for xs
    by (induction xs) (simp_all split: prod.splits)
  with assms show ?thesis
    by simp
qed

text \<open>The method \<^verbatim>\<open>Evaluate\<close> on the three implementations of this file.\<close>

fun Evaluate :: "Evaluator \<Rightarrow> permissions \<Rightarrow> bool \<times> error option" where
  "Evaluate (permissionEvaluator action scopes) permissions =
     permissionEvaluator_Evaluate action scopes permissions"
| "Evaluate (allEvaluator allOf) permissions =
     allEvaluator_Evaluate (\<lambda>e. Evaluate e permissions) allOf"
| "Evaluate (anyEvaluator anyOf) permissions =
     anyEvaluator_Evaluate (\<lambda>e. Evaluate e permissions) anyOf"

subsection \<open>ModifyScopes\<close>

text \<open>
  \<^verbatim>\<open>permissionEvaluator.ModifyScopes\<close>, lines 117-124: the loop that appends each
  resolved scope to \<^verbatim>\<open>scopes\<close>. \<^term>\<open>Inl err\<close> is \<^verbatim>\<open>return nil, err\<close>.
\<close>

fun resolveScopes :: "ScopeModifier \<Rightarrow> string list \<Rightarrow> string list \<Rightarrow> error + string list" where
  "resolveScopes fn [] scopes = Inr scopes"
| "resolveScopes fn (scope # rest) scopes =
     (case fn scope of
        (resolved, Some err) \<Rightarrow> Inl err
      | (resolved, None) \<Rightarrow> resolveScopes fn rest (scopes @ [resolved]))"

text \<open>
  \<^verbatim>\<open>ModifyScopes\<close> returns \<^verbatim>\<open>(Evaluator, error)\<close>; the three implementations return
  either \<^verbatim>\<open>(nil, err)\<close>, which is \<^term>\<open>Inl err\<close>, or an evaluator and \<^verbatim>\<open>nil\<close>, which is
  \<^term>\<open>Inr e\<close>.
\<close>

definition permissionEvaluator_ModifyScopes ::
    "string \<Rightarrow> string list option \<Rightarrow> ScopeModifier \<Rightarrow> error + Evaluator" where
  "permissionEvaluator_ModifyScopes action scopes fn =
     (case scopes of
        None \<Rightarrow> Inr (EvalPermission action None)
      | Some ss \<Rightarrow>
          (case resolveScopes fn ss [] of
             Inl err \<Rightarrow> Inl err
           | Inr scopes' \<Rightarrow> Inr (EvalPermission action (Some scopes'))))"

text \<open>
  The loop of \<^verbatim>\<open>allEvaluator.ModifyScopes\<close> (lines 149-156) and of
  \<^verbatim>\<open>anyEvaluator.ModifyScopes\<close> (lines 193-200), the same text in both: \<open>ms\<close> is the
  dynamic call \<^verbatim>\<open>e.ModifyScopes(fn)\<close>, and \<^verbatim>\<open>resolved\<close> starts as the nil slice.
\<close>

fun resolveChildren :: "('a \<Rightarrow> error + 'b) \<Rightarrow> 'a list \<Rightarrow> 'b list \<Rightarrow> error + 'b list" where
  "resolveChildren ms [] resolved = Inr resolved"
| "resolveChildren ms (e # es) resolved =
     (case ms e of
        Inl err \<Rightarrow> Inl err
      | Inr i \<Rightarrow> resolveChildren ms es (resolved @ [i]))"

lemma resolveChildren_cong [fundef_cong]:
  assumes "es = es'" and "resolved = resolved'" and "\<And>e. e \<in> set es' \<Longrightarrow> ms e = ms' e"
  shows "resolveChildren ms es resolved = resolveChildren ms' es' resolved'"
proof -
  have "(\<forall>e \<in> set xs. ms e = ms' e) \<Longrightarrow> resolveChildren ms xs acc = resolveChildren ms' xs acc"
    for xs acc
    by (induction xs arbitrary: acc) (simp_all split: sum.splits)
  with assms show ?thesis
    by simp
qed

fun ModifyScopes :: "Evaluator \<Rightarrow> ScopeModifier \<Rightarrow> error + Evaluator" where
  "ModifyScopes (permissionEvaluator action scopes) fn =
     permissionEvaluator_ModifyScopes action scopes fn"
| "ModifyScopes (allEvaluator allOf) fn =
     (case resolveChildren (\<lambda>e. ModifyScopes e fn) allOf [] of
        Inl err \<Rightarrow> Inl err
      | Inr resolved \<Rightarrow> Inr (EvalAll resolved))"
| "ModifyScopes (anyEvaluator anyOf) fn =
     (case resolveChildren (\<lambda>e. ModifyScopes e fn) anyOf [] of
        Inl err \<Rightarrow> Inl err
      | Inr resolved \<Rightarrow> Inr (EvalAny resolved))"

text \<open>
  Two notions for stating what \<^verbatim>\<open>ModifyScopes\<close> does to a whole tree: the permission
  leaves of a tree from left to right, and the tree with a function applied to each of
  its permission leaves, the combinators kept as they are.
\<close>

fun leaves :: "Evaluator \<Rightarrow> Evaluator list" where
  "leaves (permissionEvaluator action scopes) = [permissionEvaluator action scopes]"
| "leaves (allEvaluator allOf) = concat (map leaves allOf)"
| "leaves (anyEvaluator anyOf) = concat (map leaves anyOf)"

fun rewriteLeaves :: "(Evaluator \<Rightarrow> Evaluator) \<Rightarrow> Evaluator \<Rightarrow> Evaluator" where
  "rewriteLeaves f (permissionEvaluator action scopes) = f (permissionEvaluator action scopes)"
| "rewriteLeaves f (allEvaluator allOf) = allEvaluator (map (rewriteLeaves f) allOf)"
| "rewriteLeaves f (anyEvaluator anyOf) = anyEvaluator (map (rewriteLeaves f) anyOf)"

subsection \<open>Scope prefixes\<close>

text \<open>The part of a string up to and including its \<open>n\<close>-th colon.\<close>

fun throughColon :: "nat \<Rightarrow> string \<Rightarrow> string" where
  "throughColon 0 s = []"
| "throughColon (Suc n) [] = []"
| "throughColon (Suc n) (c # s) =
     (if c = CHR '':'' then c # throughColon n s else c # throughColon (Suc n) s)"

text \<open>
  Modelled from the spec: \<^verbatim>\<open>scopePrefix\<close> is called by \<^verbatim>\<open>Test_scopePrefix\<close> and its
  body is not among the source files. The spec (4.5): "given a colon-delimited scope,
  returns the substring through the second colon inclusive when at least two colons
  exist; returns the scope unchanged if it has zero or one colon".
\<close>

definition scopePrefix :: "string \<Rightarrow> string" where
  "scopePrefix scope =
     (if 2 \<le> count_list scope CHR '':'' then throughColon 2 scope else scope)"

subsection \<open>An example modifier\<close>

text \<open>
  A scope modifier for concrete runs, after the resolutions of
  \<^verbatim>\<open>TestResolveKeywordedScope\<close> and \<^verbatim>\<open>TestScopeResolver_ResolveAttribute\<close>: it
  resolves \<^verbatim>\<open>users:self\<close> to \<^verbatim>\<open>users:id:2\<close> and \<^verbatim>\<open>datasources:name:testds\<close> to
  \<^verbatim>\<open>datasources:id:1\<close>, fails on the name of a data source that does not exist, and
  returns every other scope as it is.
\<close>

definition exampleModifier :: ScopeModifier where
  "exampleModifier scope =
     (if scope = ''users:self'' then (''users:id:2'', None)
      else if scope = ''datasources:name:testds'' then (''datasources:id:1'', None)
      else if scope = ''datasources:name:missing'' then ([], Some (Error ''data source not found''))
      else (scope, None))"

section \<open>Properties of scope matching\<close>

lemma HasPrefix_prefix: "HasPrefix s pre = prefix pre s"
  unfolding HasPrefix_def
proof
  assume h: "length pre \<le> length s \<and> take (length pre) s = pre"
  then have "s = pre @ drop (length pre) s"
    by (metis append_take_drop_id)
  then show "prefix pre s"
    by (rule prefixI)
next
  assume "prefix pre s"
  then obtain r where "s = pre @ r"
    by (auto elim: prefixE)
  then show "length pre \<le> length s \<and> take (length pre) s = pre"
    by simp
qed

lemma butlast_prefix_self: "prefix (butlast xs) xs"
  by (cases xs rule: rev_cases) simp_all

lemma match_no_error: "snd (match scope target) = None"
  by (simp add: match_def Let_def)

text \<open>
  C2. For a non-empty granted scope that \<^verbatim>\<open>ValidateScope\<close> accepts and any target:
  when the granted scope ends in \<^verbatim>\<open>*\<close>, \<^verbatim>\<open>match\<close> returns true exactly when the target
  starts with the granted scope without its final character; otherwise it returns true
  exactly when the two scopes are equal. The error is nil in both cases.
\<close>

theorem match_valid_scope:
  assumes "scope \<noteq> []" and "ValidateScope scope"
  shows "match scope target =
           ((if last scope = CHR ''*'' then prefix (butlast scope) target
             else scope = target), None)"
proof (cases "last scope = CHR ''*''")
  case True
  have "scope = target \<Longrightarrow> prefix (butlast scope) target"
    using butlast_prefix_self [of scope] by simp
  with True assms show ?thesis
    by (auto simp: match_def HasPrefix_prefix)
next
  case False
  with assms show ?thesis
    by (simp add: match_def)
qed

theorem match_valid_scope_witness:
  "match ''datasources:*'' ''datasources:anything'' = (True, None)
   \<and> match ''datasources:*'' ''users:id:1'' = (False, None)
   \<and> match ''datasources:id:1'' ''datasources:id:1'' = (True, None)
   \<and> match ''datasources:id:1'' ''datasources:id:10'' = (False, None)"
proof -
  have v1: "ValidateScope ''datasources:*''"
    by (simp add: ValidateScope_def)
  have v2: "ValidateScope ''datasources:id:1''"
    by (simp add: ValidateScope_def)
  have n1: "''datasources:*'' \<noteq> []" and n2: "''datasources:id:1'' \<noteq> []"
    by simp_all
  show ?thesis
    using match_valid_scope [OF n1 v1, of "''datasources:anything''"]
      match_valid_scope [OF n1 v1, of "''users:id:1''"]
      match_valid_scope [OF n2 v2, of "''datasources:id:1''"]
      match_valid_scope [OF n2 v2, of "''datasources:id:10''"]
    by simp
qed

text \<open>
  C3. \<^verbatim>\<open>match\<close> with an empty granted scope returns \<^verbatim>\<open>(false, nil)\<close>, and so does
  \<^verbatim>\<open>match\<close> with a granted scope that has a \<^verbatim>\<open>*\<close> anywhere before its last
  character, whatever the target: never true, and never an error.
\<close>

theorem match_fail_closed:
  "match [] target = (False, None)
   \<and> (CHR ''*'' \<in> set (butlast scope) \<longrightarrow> match scope target = (False, None))"
  by (simp add: match_def ValidateScope_def)

theorem match_fail_closed_witness:
  "match [] ''a*b'' = (False, None)
   \<and> CHR ''*'' \<in> set (butlast ''a*b'') \<and> match ''a*b'' ''a*b'' = (False, None)
   \<and> CHR ''*'' \<in> set (butlast ''a**'') \<and> match ''a**'' ''axy'' = (False, None)"
proof -
  have h1: "CHR ''*'' \<in> set (butlast ''a*b'')" and h2: "CHR ''*'' \<in> set (butlast ''a**'')"
    by simp_all
  show ?thesis
    using h1 h2 match_fail_closed [of "''a*b''" "''a*b''"]
      match_fail_closed [of "''axy''" "''a**''"]
    by simp
qed

section \<open>Properties of Evaluate\<close>

subsection \<open>The permission leaf\<close>

text \<open>
  The loop over the granted scopes never leaves \<^verbatim>\<open>Evaluate\<close> with an error, and after
  it \<^verbatim>\<open>matches\<close> says whether some granted scope matches the target: the order in which
  the map is visited does not show in the result.
\<close>

lemma userScopesLoop_eq:
  "userScopesLoop userScopes target = Inr (\<exists>scope \<in> set userScopes. fst (match scope target))"
proof (induction userScopes)
  case Nil
  show ?case by simp
next
  case (Cons scope rest)
  obtain m where "match scope target = (m, None)"
    using match_no_error [of scope target] by (cases "match scope target") simp
  with Cons show ?case
    by simp
qed

lemma targetsLoop_eq:
  "targetsLoop userScopes targets =
     ((\<forall>target \<in> set targets. \<exists>scope \<in> set userScopes. fst (match scope target)), None)"
  by (induction targets) (simp_all add: userScopesLoop_eq)

text \<open>
  C1. \<^verbatim>\<open>Evaluate\<close> on a permission leaf returns \<^verbatim>\<open>(false, nil)\<close> when the map has no
  entry for the action; \<^verbatim>\<open>(true, nil)\<close> when the action is present and the leaf has no
  scopes; and, when the action is present and the leaf has scopes, true exactly when
  every required scope is matched by at least one scope granted for the action, with a
  nil error.
\<close>

theorem permissionEvaluator_Evaluate_spec:
  "(permissions action = None \<longrightarrow>
      Evaluate (permissionEvaluator action scopes) permissions = (False, None))
   \<and> (permissions action = Some userScopes \<and> elements scopes = [] \<longrightarrow>
      Evaluate (permissionEvaluator action scopes) permissions = (True, None))
   \<and> (permissions action = Some userScopes \<and> elements scopes \<noteq> [] \<longrightarrow>
      Evaluate (permissionEvaluator action scopes) permissions =
        ((\<forall>target \<in> set (elements scopes). \<exists>scope \<in> set userScopes. fst (match scope target)),
         None))"
  by (simp add: permissionEvaluator_Evaluate_def targetsLoop_eq)

theorem permissionEvaluator_Evaluate_spec_witness:
  "Evaluate (permissionEvaluator ''users:read'' None) Map.empty = (False, None)
   \<and> Evaluate (permissionEvaluator ''users:read'' None) [''users:read'' \<mapsto> []] = (True, None)
   \<and> Evaluate (permissionEvaluator ''users:read'' (Some [''users:id:1'', ''users:id:2'']))
        [''users:read'' \<mapsto> [''orgs:*'', ''users:*'']] = (True, None)
   \<and> Evaluate (permissionEvaluator ''users:read'' (Some [''users:id:1'', ''orgs:id:2'']))
        [''users:read'' \<mapsto> [''users:*'', ''orgs:id:1'']] = (False, None)"
proof -
  have m1: "fst (match ''users:*'' ''users:id:1'')" and m2: "fst (match ''users:*'' ''users:id:2'')"
    and m3: "\<not> fst (match ''users:*'' ''orgs:id:2'')"
    and m4: "\<not> fst (match ''orgs:id:1'' ''orgs:id:2'')"
    by (simp_all add: match_def ValidateScope_def HasPrefix_def)
  have e: "elements (None :: string list option) = []"
    and e1: "elements (Some [''users:id:1'', ''users:id:2'']) = [''users:id:1'', ''users:id:2'']"
    and e2: "elements (Some [''users:id:1'', ''orgs:id:2'']) = [''users:id:1'', ''orgs:id:2'']"
    by (simp_all add: elements_def)
  have a: "Evaluate (permissionEvaluator ''users:read'' None) Map.empty = (False, None)"
    using permissionEvaluator_Evaluate_spec [of Map.empty "''users:read''" None]
    by (simp del: Evaluate.simps)
  have b: "Evaluate (permissionEvaluator ''users:read'' None) [''users:read'' \<mapsto> []] = (True, None)"
    using permissionEvaluator_Evaluate_spec
      [of "[''users:read'' \<mapsto> []]" "''users:read''" None "[]"] e
    by (simp del: Evaluate.simps)
  have c: "Evaluate (permissionEvaluator ''users:read'' (Some [''users:id:1'', ''users:id:2'']))
        [''users:read'' \<mapsto> [''orgs:*'', ''users:*'']] = (True, None)"
    using permissionEvaluator_Evaluate_spec
      [of "[''users:read'' \<mapsto> [''orgs:*'', ''users:*'']]" "''users:read''"
          "Some [''users:id:1'', ''users:id:2'']" "[''orgs:*'', ''users:*'']"] e1 m1 m2
    by (simp del: Evaluate.simps)
  have d: "Evaluate (permissionEvaluator ''users:read'' (Some [''users:id:1'', ''orgs:id:2'']))
        [''users:read'' \<mapsto> [''users:*'', ''orgs:id:1'']] = (False, None)"
    using permissionEvaluator_Evaluate_spec
      [of "[''users:read'' \<mapsto> [''users:*'', ''orgs:id:1'']]" "''users:read''"
          "Some [''users:id:1'', ''orgs:id:2'']" "[''users:*'', ''orgs:id:1'']"] e2 m3 m4
    by (simp del: Evaluate.simps)
  from a b c d show ?thesis
    by blast
qed

text \<open>
  C9. \<^verbatim>\<open>match\<close> returns a nil error for every pair of scopes; so the loop over the
  granted scopes never takes its \<^verbatim>\<open>return false, err\<close>, and \<^verbatim>\<open>Evaluate\<close> on a
  permission leaf returns a nil error for every map of granted permissions.
\<close>

theorem match_never_errors:
  "snd (match scope target) = None
   \<and> (\<exists>matches. userScopesLoop userScopes target = Inr matches)
   \<and> snd (Evaluate (permissionEvaluator action scopes) permissions) = None"
  by (simp add: match_no_error userScopesLoop_eq permissionEvaluator_Evaluate_def targetsLoop_eq
      split: option.splits)

theorem match_never_errors_witness:
  "snd (match ''a*b'' ''users:id:1'') = None
   \<and> (\<exists>matches. userScopesLoop [''a*b'', ''users:*''] ''users:id:1'' = Inr matches)
   \<and> snd (Evaluate (permissionEvaluator ''users:read'' (Some [''users:id:1'']))
        [''users:read'' \<mapsto> [''a*b'', ''users:*'']]) = None"
  using match_never_errors [where scope = "''a*b''" and target = "''users:id:1''"
      and userScopes = "[''a*b'', ''users:*'']" and action = "''users:read''"
      and scopes = "Some [''users:id:1'']"
      and permissions = "[''users:read'' \<mapsto> [''a*b'', ''users:*'']]"]
  by blast

subsection \<open>The combinators\<close>

lemma anyEvaluator_Evaluate_all_false:
  "(\<forall>e \<in> set es. ev e = (False, None)) \<Longrightarrow>
     anyEvaluator_Evaluate ev (es @ rest) = anyEvaluator_Evaluate ev rest"
  by (induction es) simp_all

lemma allEvaluator_Evaluate_all_true:
  "(\<forall>e \<in> set es. ev e = (True, None)) \<Longrightarrow>
     allEvaluator_Evaluate ev (es @ rest) = allEvaluator_Evaluate ev rest"
  by (induction es) simp_all

lemma allEvaluator_Evaluate_true_iff:
  "allEvaluator_Evaluate ev es = (True, None) \<longleftrightarrow> (\<forall>e \<in> set es. ev e = (True, None))"
  by (induction es) (auto split: prod.splits)

text \<open>
  C4. \<^verbatim>\<open>anyEvaluator.Evaluate\<close> runs the loop over its children in list order, with
  \<open>ev\<close> the call \<^verbatim>\<open>e.Evaluate(permissions)\<close>. With every child of \<open>pre\<close> returning
  \<^verbatim>\<open>(false, nil)\<close>: if the next child \<open>c\<close> returns \<^verbatim>\<open>(true, nil)\<close> the result is
  \<^verbatim>\<open>(true, nil)\<close>, and if \<open>c\<close> returns an error the result is \<^verbatim>\<open>false\<close> with that error,
  in both cases whatever the later children \<open>post\<close> are and whatever they would return,
  also when one of them would return true. If all children return \<^verbatim>\<open>(false, nil)\<close>, the
  result is \<^verbatim>\<open>(false, nil)\<close>.
\<close>

theorem anyEvaluator_Evaluate_spec:
  "Evaluate (anyEvaluator anyOf) permissions =
      anyEvaluator_Evaluate (\<lambda>e. Evaluate e permissions) anyOf
   \<and> ((\<forall>e \<in> set pre. ev e = (False, None)) \<and> ev c = (True, None) \<longrightarrow>
        anyEvaluator_Evaluate ev (pre @ c # post) = (True, None))
   \<and> ((\<forall>e \<in> set pre. ev e = (False, None)) \<and> ev c = (ok, Some err) \<longrightarrow>
        anyEvaluator_Evaluate ev (pre @ c # post) = (False, Some err))
   \<and> ((\<forall>e \<in> set es. ev e = (False, None)) \<longrightarrow> anyEvaluator_Evaluate ev es = (False, None))"
proof -
  have "(\<forall>e \<in> set es. ev e = (False, None)) \<longrightarrow> anyEvaluator_Evaluate ev es = (False, None)"
    using anyEvaluator_Evaluate_all_false [of es ev "[]"] by simp
  then show ?thesis
    by (simp add: anyEvaluator_Evaluate_all_false)
qed

theorem anyEvaluator_Evaluate_spec_witness:
  "anyEvaluator_Evaluate (\<lambda>r. r)
      ([(False, None)] @ (True, None) # [(False, Some (Error ''lookup failed''))]) = (True, None)
   \<and> anyEvaluator_Evaluate (\<lambda>r. r)
      ([(False, None)] @ (False, Some (Error ''lookup failed'')) # [(True, None)])
        = (False, Some (Error ''lookup failed''))
   \<and> anyEvaluator_Evaluate (\<lambda>r. r) [(False, None), (False, None)] = (False, None)
   \<and> Evaluate
        (anyEvaluator
          ([permissionEvaluator ''orgs:read'' None] @ permissionEvaluator ''users:read'' None
           # [permissionEvaluator ''teams:read'' None]))
        [''users:read'' \<mapsto> []] = (True, None)"
proof -
  have a: "anyEvaluator_Evaluate (\<lambda>r. r)
      ([(False, None)] @ (True, None) # [(False, Some (Error ''lookup failed''))]) = (True, None)"
    using anyEvaluator_Evaluate_spec
      [where ev = "\<lambda>r. r" and pre = "[(False, None)]" and c = "(True, None)"
         and post = "[(False, Some (Error ''lookup failed''))]"]
    by (simp del: anyEvaluator_Evaluate.simps)
  have b: "anyEvaluator_Evaluate (\<lambda>r. r)
      ([(False, None)] @ (False, Some (Error ''lookup failed'')) # [(True, None)])
        = (False, Some (Error ''lookup failed''))"
    using anyEvaluator_Evaluate_spec
      [where ev = "\<lambda>r. r" and pre = "[(False, None)]"
         and c = "(False, Some (Error ''lookup failed''))" and ok = False
         and err = "Error ''lookup failed''" and post = "[(True, None)]"]
    by (simp del: anyEvaluator_Evaluate.simps)
  have c: "anyEvaluator_Evaluate (\<lambda>r. r) [(False, None), (False, None)] = (False, None)"
    using anyEvaluator_Evaluate_spec
      [where ev = "\<lambda>r. r" and es = "[(False, None), (False, None)]"]
    by (simp del: anyEvaluator_Evaluate.simps)
  let ?granted = "[''users:read'' \<mapsto> []] :: permissions"
  have l1: "Evaluate (permissionEvaluator ''orgs:read'' None) ?granted = (False, None)"
    and l2: "Evaluate (permissionEvaluator ''users:read'' None) ?granted = (True, None)"
    by (simp_all add: permissionEvaluator_Evaluate_def elements_def)
  have d: "Evaluate
        (anyEvaluator
          ([permissionEvaluator ''orgs:read'' None] @ permissionEvaluator ''users:read'' None
           # [permissionEvaluator ''teams:read'' None]))
        ?granted = (True, None)"
    using anyEvaluator_Evaluate_spec
      [where ev = "\<lambda>e. Evaluate e ?granted" and pre = "[permissionEvaluator ''orgs:read'' None]"
         and c = "permissionEvaluator ''users:read'' None"
         and post = "[permissionEvaluator ''teams:read'' None]"
         and anyOf = "[permissionEvaluator ''orgs:read'' None] @ permissionEvaluator ''users:read'' None
           # [permissionEvaluator ''teams:read'' None]"
         and permissions = ?granted] l1 l2
    by (simp del: anyEvaluator_Evaluate.simps Evaluate.simps)
  from a b c d show ?thesis
    by blast
qed

text \<open>
  C5. \<^verbatim>\<open>allEvaluator.Evaluate\<close> runs the loop over its children in list order, with
  \<open>ev\<close> the call \<^verbatim>\<open>e.Evaluate(permissions)\<close>. With every child of \<open>pre\<close> returning
  \<^verbatim>\<open>(true, nil)\<close>: if the next child \<open>c\<close> returns \<^verbatim>\<open>(ok, err)\<close> with \<open>ok\<close> false or
  \<open>err\<close> not nil, the result is \<^verbatim>\<open>(false, err)\<close>, the error being nil when the child
  returned only false, whatever the later children \<open>post\<close> are and whatever they would
  return. The result is \<^verbatim>\<open>(true, nil)\<close> exactly when every child returns
  \<^verbatim>\<open>(true, nil)\<close>.
\<close>

theorem allEvaluator_Evaluate_spec:
  "Evaluate (allEvaluator allOf) permissions =
      allEvaluator_Evaluate (\<lambda>e. Evaluate e permissions) allOf
   \<and> ((\<forall>e \<in> set pre. ev e = (True, None)) \<and> ev c = (ok, err) \<and> (\<not> ok \<or> err \<noteq> None) \<longrightarrow>
        allEvaluator_Evaluate ev (pre @ c # post) = (False, err))
   \<and> (allEvaluator_Evaluate ev es = (True, None) \<longleftrightarrow> (\<forall>e \<in> set es. ev e = (True, None)))"
  using allEvaluator_Evaluate_true_iff [of ev es]
  by (auto simp: allEvaluator_Evaluate_all_true)

theorem allEvaluator_Evaluate_spec_witness:
  "allEvaluator_Evaluate (\<lambda>r. r)
      ([(True, None)] @ (False, None) # [(False, Some (Error ''lookup failed''))]) = (False, None)
   \<and> allEvaluator_Evaluate (\<lambda>r. r)
      ([(True, None)] @ (False, Some (Error ''lookup failed'')) # [(True, None)])
        = (False, Some (Error ''lookup failed''))
   \<and> allEvaluator_Evaluate (\<lambda>r. r) [(True, None), (True, None)] = (True, None)
   \<and> Evaluate
        (allEvaluator
          ([permissionEvaluator ''users:read'' None] @ permissionEvaluator ''orgs:read'' None
           # [permissionEvaluator ''users:read'' None]))
        [''users:read'' \<mapsto> []] = (False, None)"
proof -
  have a: "allEvaluator_Evaluate (\<lambda>r. r)
      ([(True, None)] @ (False, None) # [(False, Some (Error ''lookup failed''))]) = (False, None)"
    using allEvaluator_Evaluate_spec
      [where ev = "\<lambda>r. r" and pre = "[(True, None)]" and c = "(False, None)" and ok = False
         and err = None and post = "[(False, Some (Error ''lookup failed''))]"]
    by (simp del: allEvaluator_Evaluate.simps)
  have b: "allEvaluator_Evaluate (\<lambda>r. r)
      ([(True, None)] @ (False, Some (Error ''lookup failed'')) # [(True, None)])
        = (False, Some (Error ''lookup failed''))"
    using allEvaluator_Evaluate_spec
      [where ev = "\<lambda>r. r" and pre = "[(True, None)]"
         and c = "(False, Some (Error ''lookup failed''))" and ok = False
         and err = "Some (Error ''lookup failed'')" and post = "[(True, None)]"]
    by (simp del: allEvaluator_Evaluate.simps)
  have c: "allEvaluator_Evaluate (\<lambda>r. r) [(True, None), (True, None)] = (True, None)"
    using allEvaluator_Evaluate_spec
      [where ev = "\<lambda>r. r" and es = "[(True, None), (True, None)]"]
    by (simp del: allEvaluator_Evaluate.simps)
  let ?granted = "[''users:read'' \<mapsto> []] :: permissions"
  have l1: "Evaluate (permissionEvaluator ''orgs:read'' None) ?granted = (False, None)"
    and l2: "Evaluate (permissionEvaluator ''users:read'' None) ?granted = (True, None)"
    by (simp_all add: permissionEvaluator_Evaluate_def elements_def)
  have d: "Evaluate
        (allEvaluator
          ([permissionEvaluator ''users:read'' None] @ permissionEvaluator ''orgs:read'' None
           # [permissionEvaluator ''users:read'' None]))
        ?granted = (False, None)"
    using allEvaluator_Evaluate_spec
      [where ev = "\<lambda>e. Evaluate e ?granted" and pre = "[permissionEvaluator ''users:read'' None]"
         and c = "permissionEvaluator ''orgs:read'' None" and ok = False and err = None
         and post = "[permissionEvaluator ''users:read'' None]"
         and allOf = "[permissionEvaluator ''users:read'' None] @ permissionEvaluator ''orgs:read'' None
           # [permissionEvaluator ''users:read'' None]"
         and permissions = ?granted] l1 l2
    by (simp del: allEvaluator_Evaluate.simps Evaluate.simps)
  from a b c d show ?thesis
    by blast
qed

text \<open>
  C10. For every map of granted permissions, an \<^verbatim>\<open>allEvaluator\<close> without children
  evaluates to \<^verbatim>\<open>(true, nil)\<close> and an \<^verbatim>\<open>anyEvaluator\<close> without children evaluates to
  \<^verbatim>\<open>(false, nil)\<close>.
\<close>

theorem Evaluate_no_children:
  "Evaluate (allEvaluator []) permissions = (True, None)
   \<and> Evaluate (anyEvaluator []) permissions = (False, None)
   \<and> Evaluate (EvalAll []) permissions = (True, None)
   \<and> Evaluate (EvalAny []) permissions = (False, None)"
  by (simp add: EvalAll_def EvalAny_def)

section \<open>Properties of ModifyScopes\<close>

subsection \<open>The permission leaf\<close>

lemma resolveScopes_ok:
  "(\<forall>s \<in> set ss. snd (fn s) = None) \<Longrightarrow>
     resolveScopes fn ss acc = Inr (acc @ map (\<lambda>s. fst (fn s)) ss)"
  by (induction ss arbitrary: acc) (auto split: prod.splits option.splits)

lemma resolveScopes_error:
  "(\<forall>s \<in> set pre. snd (fn s) = None) \<Longrightarrow> fn s = (r, Some err) \<Longrightarrow>
     resolveScopes fn (pre @ s # post) acc = Inl err"
  by (induction pre arbitrary: acc) (auto split: prod.splits option.splits)

text \<open>
  C6. \<^verbatim>\<open>ModifyScopes\<close> on a permission leaf. With nil \<^verbatim>\<open>Scopes\<close> the result is a leaf
  with the same action and nil scopes, for every modifier: the modifier has no part in
  it. Otherwise, when the modifier fails on no scope, the result is a leaf with the same
  action whose scopes are the modifier's results in the order of the list; and when the
  modifier fails on a scope after succeeding on all the scopes before it, the result is
  that error and no leaf.
\<close>

theorem permissionEvaluator_ModifyScopes_spec:
  "ModifyScopes (permissionEvaluator action None) fn = Inr (permissionEvaluator action None)
   \<and> ((\<forall>s \<in> set ss. snd (fn s) = None) \<longrightarrow>
        ModifyScopes (permissionEvaluator action (Some ss)) fn =
          Inr (permissionEvaluator action (Some (map (\<lambda>s. fst (fn s)) ss))))
   \<and> ((\<forall>s \<in> set pre. snd (fn s) = None) \<and> fn scope = (resolved, Some err) \<longrightarrow>
        ModifyScopes (permissionEvaluator action (Some (pre @ scope # post))) fn = Inl err)"
  by (simp add: permissionEvaluator_ModifyScopes_def EvalPermission_def resolveScopes_ok
      resolveScopes_error)

theorem permissionEvaluator_ModifyScopes_spec_witness:
  "ModifyScopes (permissionEvaluator ''users:read'' None) exampleModifier
      = Inr (permissionEvaluator ''users:read'' None)
   \<and> ModifyScopes (permissionEvaluator ''users:read'' (Some [''users:self'', ''orgs:id:1'']))
        exampleModifier
      = Inr (permissionEvaluator ''users:read'' (Some [''users:id:2'', ''orgs:id:1'']))
   \<and> ModifyScopes (permissionEvaluator ''users:read'' (Some [])) exampleModifier
      = Inr (permissionEvaluator ''users:read'' (Some []))
   \<and> ModifyScopes
        (permissionEvaluator ''datasources:read''
           (Some ([''users:self''] @ ''datasources:name:missing'' # [''datasources:name:testds''])))
        exampleModifier
      = Inl (Error ''data source not found'')"
proof -
  have a: "ModifyScopes (permissionEvaluator ''users:read'' None) exampleModifier
      = Inr (permissionEvaluator ''users:read'' None)"
    using permissionEvaluator_ModifyScopes_spec [where action = "''users:read''"
        and fn = exampleModifier]
    by (simp del: ModifyScopes.simps)
  have b: "ModifyScopes (permissionEvaluator ''users:read'' (Some [''users:self'', ''orgs:id:1'']))
        exampleModifier
      = Inr (permissionEvaluator ''users:read'' (Some [''users:id:2'', ''orgs:id:1'']))"
    using permissionEvaluator_ModifyScopes_spec [where action = "''users:read''"
        and fn = exampleModifier and ss = "[''users:self'', ''orgs:id:1'']"]
    by (simp add: exampleModifier_def del: ModifyScopes.simps)
  have c: "ModifyScopes (permissionEvaluator ''users:read'' (Some [])) exampleModifier
      = Inr (permissionEvaluator ''users:read'' (Some []))"
    using permissionEvaluator_ModifyScopes_spec [where action = "''users:read''"
        and fn = exampleModifier and ss = "[]"]
    by (simp del: ModifyScopes.simps)
  have d: "ModifyScopes
        (permissionEvaluator ''datasources:read''
           (Some ([''users:self''] @ ''datasources:name:missing'' # [''datasources:name:testds''])))
        exampleModifier
      = Inl (Error ''data source not found'')"
    using permissionEvaluator_ModifyScopes_spec [where action = "''datasources:read''"
        and fn = exampleModifier and pre = "[''users:self'']"
        and scope = "''datasources:name:missing''" and resolved = "[]"
        and err = "Error ''data source not found''" and post = "[''datasources:name:testds'']"]
    by (simp add: exampleModifier_def del: ModifyScopes.simps)
  from a b c d show ?thesis
    by blast
qed

subsection \<open>The combinators\<close>

lemma find_append_cases:
  "find P (xs @ ys) = (case find P xs of None \<Rightarrow> find P ys | Some x \<Rightarrow> Some x)"
  by (induction xs) simp_all

lemma find_first:
  "(\<forall>x \<in> set pre. \<not> P x) \<Longrightarrow> P x \<Longrightarrow> find P (pre @ x # post) = Some x"
  by (induction pre) simp_all

lemma resolveChildren_ok:
  "(\<forall>e \<in> set es. \<exists>i. ms e = Inr i) \<Longrightarrow>
     resolveChildren ms es acc = Inr (acc @ map (\<lambda>e. projr (ms e)) es)"
  by (induction es arbitrary: acc) (auto split: sum.splits)

lemma resolveChildren_error:
  "(\<forall>e \<in> set pre. \<exists>i. ms e = Inr i) \<Longrightarrow> ms c = Inl err \<Longrightarrow>
     resolveChildren ms (pre @ c # post) acc = Inl err"
  by (induction pre arbitrary: acc) (auto split: sum.splits)

text \<open>
  When every child is decided by the first of its leaves that \<open>P\<close> holds of, so is the
  loop over the children.
\<close>

lemma resolveChildren_leaves:
  assumes "\<And>e. e \<in> set es \<Longrightarrow> ms e =
     (case find P (leaves e) of None \<Rightarrow> Inr (g e) | Some l \<Rightarrow> Inl (h l))"
  shows "resolveChildren ms es acc =
     (case find P (concat (map leaves es)) of
        None \<Rightarrow> Inr (acc @ map g es)
      | Some l \<Rightarrow> Inl (h l))"
  using assms
proof (induction es arbitrary: acc)
  case Nil
  show ?case by simp
next
  case (Cons e es)
  have e: "ms e = (case find P (leaves e) of None \<Rightarrow> Inr (g e) | Some l \<Rightarrow> Inl (h l))"
    using Cons.prems by simp
  have rest: "resolveChildren ms es acc' =
     (case find P (concat (map leaves es)) of
        None \<Rightarrow> Inr (acc' @ map g es)
      | Some l \<Rightarrow> Inl (h l))" for acc'
    using Cons.IH Cons.prems by simp
  show ?case
  proof (cases "find P (leaves e)")
    case None
    with e rest [of "acc @ [g e]"] show ?thesis
      by (simp add: find_append_cases split: option.splits)
  next
    case (Some l)
    with e show ?thesis
      by (simp add: find_append_cases)
  qed
qed

text \<open>
  The whole tree: the first leaf, from left to right, on which \<^verbatim>\<open>ModifyScopes\<close> fails
  gives the error; without such a leaf, every leaf is replaced by its own result.
\<close>

lemma ModifyScopes_leaves:
  "ModifyScopes t fn =
     (case find (\<lambda>l. isl (ModifyScopes l fn)) (leaves t) of
        None \<Rightarrow> Inr (rewriteLeaves (\<lambda>l. projr (ModifyScopes l fn)) t)
      | Some l \<Rightarrow> Inl (projl (ModifyScopes l fn)))"
proof (induction t)
  case (permissionEvaluator action scopes)
  show ?case
    by (cases "ModifyScopes (permissionEvaluator action scopes) fn")
      (simp_all del: ModifyScopes.simps)
next
  case (allEvaluator allOf)
  have "resolveChildren (\<lambda>e. ModifyScopes e fn) allOf [] =
     (case find (\<lambda>l. isl (ModifyScopes l fn)) (concat (map leaves allOf)) of
        None \<Rightarrow> Inr ([] @ map (rewriteLeaves (\<lambda>l. projr (ModifyScopes l fn))) allOf)
      | Some l \<Rightarrow> Inl (projl (ModifyScopes l fn)))"
    by (rule resolveChildren_leaves) (simp add: allEvaluator)
  then show ?case
    by (simp add: EvalAll_def split: option.splits)
next
  case (anyEvaluator anyOf)
  have "resolveChildren (\<lambda>e. ModifyScopes e fn) anyOf [] =
     (case find (\<lambda>l. isl (ModifyScopes l fn)) (concat (map leaves anyOf)) of
        None \<Rightarrow> Inr ([] @ map (rewriteLeaves (\<lambda>l. projr (ModifyScopes l fn))) anyOf)
      | Some l \<Rightarrow> Inl (projl (ModifyScopes l fn)))"
    by (rule resolveChildren_leaves) (simp add: anyEvaluator)
  then show ?case
    by (simp add: EvalAny_def split: option.splits)
qed

lemma ModifyScopes_all_leaves_ok:
  assumes "\<forall>l \<in> set (leaves t). \<exists>l'. ModifyScopes l fn = Inr l'"
  shows "ModifyScopes t fn = Inr (rewriteLeaves (\<lambda>l. projr (ModifyScopes l fn)) t)"
proof -
  have "find (\<lambda>l. isl (ModifyScopes l fn)) (leaves t) = None"
    using assms by (auto simp: find_None_iff)
  then show ?thesis
    by (simp add: ModifyScopes_leaves [of t] del: ModifyScopes.simps)
qed

lemma ModifyScopes_first_leaf_error:
  assumes "leaves t = pre @ l # post"
    and "\<forall>l \<in> set pre. \<exists>l'. ModifyScopes l fn = Inr l'"
    and "ModifyScopes l fn = Inl err"
  shows "ModifyScopes t fn = Inl err"
proof -
  have "find (\<lambda>l. isl (ModifyScopes l fn)) (pre @ l # post) = Some l"
    using assms(2,3) by (intro find_first) auto
  with assms(1,3) show ?thesis
    by (simp add: ModifyScopes_leaves [of t] del: ModifyScopes.simps)
qed

text \<open>
  C7. \<^verbatim>\<open>ModifyScopes\<close> on an \<^verbatim>\<open>allEvaluator\<close> or an \<^verbatim>\<open>anyEvaluator\<close>. When it succeeds
  on every child, the result is an evaluator of the same kind whose children are the
  children's results in the same order; when it fails on a child after succeeding on all
  the children before it, the result is that child's error. For a tree of any depth it
  follows that, when \<^verbatim>\<open>ModifyScopes\<close> succeeds on every leaf standing alone, the result is
  the same tree with every leaf replaced by that leaf's own result, and that the error of
  the first failing leaf, from left to right, is the result otherwise.
\<close>

theorem combinator_ModifyScopes_spec:
  "((\<forall>e \<in> set es. \<exists>e'. ModifyScopes e fn = Inr e') \<longrightarrow>
      ModifyScopes (allEvaluator es) fn =
        Inr (allEvaluator (map (\<lambda>e. projr (ModifyScopes e fn)) es))
      \<and> ModifyScopes (anyEvaluator es) fn =
        Inr (anyEvaluator (map (\<lambda>e. projr (ModifyScopes e fn)) es)))
   \<and> ((\<forall>e \<in> set pre. \<exists>e'. ModifyScopes e fn = Inr e') \<and> ModifyScopes c fn = Inl err \<longrightarrow>
      ModifyScopes (allEvaluator (pre @ c # post)) fn = Inl err
      \<and> ModifyScopes (anyEvaluator (pre @ c # post)) fn = Inl err)
   \<and> ((\<forall>l \<in> set (leaves t). \<exists>l'. ModifyScopes l fn = Inr l') \<longrightarrow>
      ModifyScopes t fn = Inr (rewriteLeaves (\<lambda>l. projr (ModifyScopes l fn)) t))
   \<and> (leaves t = lpre @ l # lpost \<and> (\<forall>l \<in> set lpre. \<exists>l'. ModifyScopes l fn = Inr l')
       \<and> ModifyScopes l fn = Inl lerr \<longrightarrow>
      ModifyScopes t fn = Inl lerr)"
proof -
  have a: "(\<forall>e \<in> set es. \<exists>e'. ModifyScopes e fn = Inr e') \<Longrightarrow>
      ModifyScopes (allEvaluator es) fn =
        Inr (allEvaluator (map (\<lambda>e. projr (ModifyScopes e fn)) es))
      \<and> ModifyScopes (anyEvaluator es) fn =
        Inr (anyEvaluator (map (\<lambda>e. projr (ModifyScopes e fn)) es))"
    by (simp add: resolveChildren_ok EvalAll_def EvalAny_def)
  have b: "(\<forall>e \<in> set pre. \<exists>e'. ModifyScopes e fn = Inr e') \<and> ModifyScopes c fn = Inl err \<Longrightarrow>
      ModifyScopes (allEvaluator (pre @ c # post)) fn = Inl err
      \<and> ModifyScopes (anyEvaluator (pre @ c # post)) fn = Inl err"
    by (simp add: resolveChildren_error)
  have c: "(\<forall>l \<in> set (leaves t). \<exists>l'. ModifyScopes l fn = Inr l') \<Longrightarrow>
      ModifyScopes t fn = Inr (rewriteLeaves (\<lambda>l. projr (ModifyScopes l fn)) t)"
    by (rule ModifyScopes_all_leaves_ok)
  have d: "leaves t = lpre @ l # lpost \<and> (\<forall>l \<in> set lpre. \<exists>l'. ModifyScopes l fn = Inr l')
       \<and> ModifyScopes l fn = Inl lerr \<Longrightarrow> ModifyScopes t fn = Inl lerr"
    using ModifyScopes_first_leaf_error [of t lpre l lpost fn lerr] by blast
  from a b c d show ?thesis
    by blast
qed

theorem combinator_ModifyScopes_spec_witness:
  "ModifyScopes
      (anyEvaluator
        [permissionEvaluator ''datasources:read'' (Some [''datasources:name:testds'']),
         permissionEvaluator ''users:read'' (Some [''users:self''])])
      exampleModifier
    = Inr (anyEvaluator
        [permissionEvaluator ''datasources:read'' (Some [''datasources:id:1'']),
         permissionEvaluator ''users:read'' (Some [''users:id:2''])])
   \<and> ModifyScopes
      (allEvaluator
        ([permissionEvaluator ''users:read'' (Some [''users:self''])]
         @ permissionEvaluator ''datasources:read'' (Some [''datasources:name:missing''])
         # [permissionEvaluator ''datasources:read'' (Some [''datasources:name:testds''])]))
      exampleModifier
    = Inl (Error ''data source not found'')
   \<and> ModifyScopes
      (allEvaluator
        [permissionEvaluator ''datasources:read'' (Some [''datasources:name:testds'']),
         anyEvaluator
           [permissionEvaluator ''datasources:read'' (Some [''datasources:name:testds'']),
            permissionEvaluator ''datasources:read'' (Some [''datasources:name:testds''])]])
      exampleModifier
    = Inr (allEvaluator
        [permissionEvaluator ''datasources:read'' (Some [''datasources:id:1'']),
         anyEvaluator
           [permissionEvaluator ''datasources:read'' (Some [''datasources:id:1'']),
            permissionEvaluator ''datasources:read'' (Some [''datasources:id:1''])]])
   \<and> ModifyScopes
      (allEvaluator
        [permissionEvaluator ''users:read'' (Some [''users:self'']),
         anyEvaluator
           [permissionEvaluator ''datasources:read'' (Some [''datasources:name:missing'']),
            permissionEvaluator ''datasources:read'' (Some [''datasources:name:testds''])]])
      exampleModifier
    = Inl (Error ''data source not found'')"
proof -
  let ?testds = "permissionEvaluator ''datasources:read'' (Some [''datasources:name:testds''])"
  let ?self = "permissionEvaluator ''users:read'' (Some [''users:self''])"
  let ?missing = "permissionEvaluator ''datasources:read'' (Some [''datasources:name:missing''])"
  have l1: "ModifyScopes ?testds exampleModifier
      = Inr (permissionEvaluator ''datasources:read'' (Some [''datasources:id:1'']))"
    and l2: "ModifyScopes ?self exampleModifier
      = Inr (permissionEvaluator ''users:read'' (Some [''users:id:2'']))"
    and l3: "ModifyScopes ?missing exampleModifier = Inl (Error ''data source not found'')"
    by (simp_all add: permissionEvaluator_ModifyScopes_def EvalPermission_def exampleModifier_def)
  have a: "ModifyScopes (anyEvaluator [?testds, ?self]) exampleModifier
    = Inr (anyEvaluator
        [permissionEvaluator ''datasources:read'' (Some [''datasources:id:1'']),
         permissionEvaluator ''users:read'' (Some [''users:id:2''])])"
  proof -
    have h: "\<forall>e \<in> set [?testds, ?self]. \<exists>e'. ModifyScopes e exampleModifier = Inr e'"
      using l1 l2 by (simp del: ModifyScopes.simps)
    from combinator_ModifyScopes_spec [THEN conjunct1, THEN mp, OF h] l1 l2
    show ?thesis
      by (simp del: ModifyScopes.simps)
  qed
  have b: "ModifyScopes (allEvaluator ([?self] @ ?missing # [?testds])) exampleModifier
    = Inl (Error ''data source not found'')"
  proof -
    have h: "(\<forall>e \<in> set [?self]. \<exists>e'. ModifyScopes e exampleModifier = Inr e')
        \<and> ModifyScopes ?missing exampleModifier = Inl (Error ''data source not found'')"
      using l2 l3 by (simp del: ModifyScopes.simps)
    from combinator_ModifyScopes_spec [THEN conjunct2, THEN conjunct1, THEN mp, OF h]
    show ?thesis
      by (rule conjunct1)
  qed
  have c: "ModifyScopes (allEvaluator [?testds, anyEvaluator [?testds, ?testds]]) exampleModifier
    = Inr (allEvaluator
        [permissionEvaluator ''datasources:read'' (Some [''datasources:id:1'']),
         anyEvaluator
           [permissionEvaluator ''datasources:read'' (Some [''datasources:id:1'']),
            permissionEvaluator ''datasources:read'' (Some [''datasources:id:1''])]])"
  proof -
    have h: "\<forall>l \<in> set (leaves (allEvaluator [?testds, anyEvaluator [?testds, ?testds]])).
        \<exists>l'. ModifyScopes l exampleModifier = Inr l'"
      using l1 by (simp del: ModifyScopes.simps)
    from combinator_ModifyScopes_spec
      [THEN conjunct2, THEN conjunct2, THEN conjunct1, THEN mp, OF h] l1
    show ?thesis
      by (simp del: ModifyScopes.simps)
  qed
  have d: "ModifyScopes (allEvaluator [?self, anyEvaluator [?missing, ?testds]]) exampleModifier
    = Inl (Error ''data source not found'')"
  proof -
    have h: "leaves (allEvaluator [?self, anyEvaluator [?missing, ?testds]])
          = [?self] @ ?missing # [?testds]
        \<and> (\<forall>l \<in> set [?self]. \<exists>l'. ModifyScopes l exampleModifier = Inr l')
        \<and> ModifyScopes ?missing exampleModifier = Inl (Error ''data source not found'')"
      using l2 l3 by (simp del: ModifyScopes.simps)
    from combinator_ModifyScopes_spec
      [THEN conjunct2, THEN conjunct2, THEN conjunct2, THEN mp, OF h]
    show ?thesis .
  qed
  from a b c d show ?thesis
    by simp
qed

section \<open>Properties of scope prefixes\<close>

lemma throughColon_spec:
  "n \<le> count_list s CHR '':'' \<Longrightarrow>
     prefix (throughColon n s) s \<and> count_list (throughColon n s) CHR '':'' = n
     \<and> (0 < n \<longrightarrow> throughColon n s \<noteq> [] \<and> last (throughColon n s) = CHR '':'')"
proof (induction n s rule: throughColon.induct)
  case (1 s)
  show ?case by simp
next
  case (2 n)
  then show ?case by simp
next
  case (3 n c s)
  show ?case
  proof (cases "c = CHR '':''")
    case True
    with 3 show ?thesis
      by (cases n) auto
  next
    case False
    with 3 show ?thesis
      by auto
  qed
qed

text \<open>
  C8. \<^verbatim>\<open>scopePrefix\<close> of a scope with at least two colons is the part of the scope
  up to and including its second colon: a prefix of the scope that has two colons and
  ends in one. A scope with fewer than two colons is returned as it is. The four cases of
  \<^verbatim>\<open>Test_scopePrefix\<close> follow.
\<close>

theorem scopePrefix_spec:
  "(2 \<le> count_list scope CHR '':'' \<longrightarrow>
      prefix (scopePrefix scope) scope \<and> count_list (scopePrefix scope) CHR '':'' = 2
      \<and> last (scopePrefix scope) = CHR '':'')
   \<and> (count_list scope CHR '':'' < 2 \<longrightarrow> scopePrefix scope = scope)
   \<and> scopePrefix [] = []
   \<and> scopePrefix '':'' = '':''
   \<and> scopePrefix ''datasources:'' = ''datasources:''
   \<and> scopePrefix ''datasources:name:testds'' = ''datasources:name:''"
proof -
  have "2 \<le> count_list scope CHR '':'' \<Longrightarrow>
      prefix (scopePrefix scope) scope \<and> count_list (scopePrefix scope) CHR '':'' = 2
      \<and> last (scopePrefix scope) = CHR '':''"
    using throughColon_spec [of 2 scope] by (simp add: scopePrefix_def)
  moreover have "count_list scope CHR '':'' < 2 \<Longrightarrow> scopePrefix scope = scope"
    by (simp add: scopePrefix_def)
  moreover have "scopePrefix [] = []" "scopePrefix '':'' = '':''"
    "scopePrefix ''datasources:'' = ''datasources:''"
    "scopePrefix ''datasources:name:testds'' = ''datasources:name:''"
    by (simp_all add: scopePrefix_def numeral_2_eq_2)
  ultimately show ?thesis
    by blast
qed

theorem scopePrefix_spec_witness:
  "2 \<le> count_list ''datasources:name:testds'' CHR '':''
   \<and> prefix (scopePrefix ''datasources:name:testds'') ''datasources:name:testds''
   \<and> count_list (scopePrefix ''datasources:name:testds'') CHR '':'' = 2
   \<and> last (scopePrefix ''datasources:name:testds'') = CHR '':''
   \<and> count_list ''datasources:'' CHR '':'' < 2
   \<and> scopePrefix ''datasources:'' = ''datasources:''"
proof -
  have h1: "2 \<le> count_list ''datasources:name:testds'' CHR '':''"
    and h2: "count_list ''datasources:'' CHR '':'' < 2"
    by simp_all
  show ?thesis
    using h1 h2 scopePrefix_spec [of "''datasources:name:testds''"]
      scopePrefix_spec [of "''datasources:''"]
    by blast
qed

end
